theory Spec2Isabelle
  imports Complex_Main "HOL-Library.AList" "HOL-Library.Sublist"
begin

section \<open>The label field of flambe (src/flambe/field/label.py)\<close>

text \<open>
  The class \<open>LabelField\<close> keeps two dictionaries: the vocabulary \<open>self.vocab\<close>
  (token to id) and \<open>self.label_count_dict\<close> (token to number of occurrences).
  Python dictionaries keep the order of insertion and the properties read the
  vocabulary in that order, so both are association lists here:
  \<open>map_of d k\<close> is the lookup \<open>d[k]\<close> (\<open>None\<close> where Python raises KeyError),
  \<open>AList.update k v d\<close> is the assignment \<open>d[k] = v\<close> (in place for a key that
  is there, at the end for a new key), \<open>map fst d\<close> is the iteration over the
  keys and \<open>length d\<close> is \<open>len(d)\<close>. A dictionary holds each key once, and so
  do the lists that the operations below build from the empty ones. Python
  integers are unbounded: \<open>int\<close>.
\<close>

subsection \<open>Errors\<close>

text \<open>
  \<open>TypeError\<close>: iterating over \<open>None\<close>. \<open>KeyError k\<close>: a dictionary read at a
  key that is not there. \<open>ZeroDivisionError\<close>: a quotient by zero, which has
  no rational value (the tensor library gives inf or nan there, or raises on
  integer tensors); the model makes it an error branch of its own.
\<close>

datatype error = TypeError | KeyError string | ZeroDivisionError

subsection \<open>The tokenizer\<close>

text \<open>
  Modelled from the spec: the class \<open>LabelTokenizer\<close> (flambe.tokenizer) is
  not among the sources. The spec: the tokenizer, given a configured
  separator, splits one raw string into an ordered sequence of one or more
  label tokens, "using the separator if multilabel mode is active, otherwise
  yielding the whole string as one token". \<open>split_sep sep acc s\<close> cuts \<open>s\<close>
  at each occurrence of the non-empty separator, from the left; \<open>acc\<close> holds
  the characters of the current piece, last one first. The spec gives no
  meaning to an empty separator; the model treats it as no separator.
  No theorem below depends on how the tokenizer cuts: each is proved for
  every tokenizer function.
\<close>

function split_sep :: "string \<Rightarrow> string \<Rightarrow> string \<Rightarrow> string list" where
  "split_sep sep acc [] = [rev acc]"
| "split_sep sep acc (c # cs) =
     (if sep \<noteq> [] \<and> prefix sep (c # cs)
      then rev acc # split_sep sep [] (drop (length sep) (c # cs))
      else split_sep sep (c # acc) cs)"
  by pat_completeness auto
termination
  by (relation "measure (\<lambda>(sep, acc, s). length s)") auto

definition LabelTokenizer :: "string option \<Rightarrow> string \<Rightarrow> string list" where
  "LabelTokenizer multilabel_sep example =
     (case multilabel_sep of
        None \<Rightarrow> [example]
      | Some sep \<Rightarrow> if sep = [] then [example] else split_sep sep [] example)"

subsection \<open>The encoder state and its constructor\<close>

text \<open>
  The fields \<open>one_hot\<close>, \<open>multilabel_sep\<close> and \<open>label_count_dict\<close> are set by
  \<open>__init__\<close> (lines 30 to 32); \<open>tokenizer\<close> and \<open>vocab\<close> are the fields of the
  parent class \<open>TextField\<close> that this class reads and writes.
\<close>

record LabelField =
  one_hot :: bool
  multilabel_sep :: "string option"
  label_count_dict :: "(string \<times> int) list"
  tokenizer :: "string \<Rightarrow> string list"
  vocab :: "(string \<times> int) list"

text \<open>
  \<open>__init__\<close>, lines 30 to 38. Modelled from the spec: the constructor of
  \<open>TextField\<close> is not among the sources; with \<open>unk_token=None\<close> and
  \<open>pad_token=None\<close> it "initializes empty vocabulary" (no reserved unknown or
  padding token) and keeps the tokenizer it is given.
\<close>

definition init :: "bool \<Rightarrow> string option \<Rightarrow> LabelField" where
  "init one_hot' multilabel_sep' =
     \<lparr> one_hot = one_hot',
       multilabel_sep = multilabel_sep',
       label_count_dict = [],
       tokenizer = LabelTokenizer multilabel_sep',
       vocab = [] \<rparr>"

subsection \<open>setup\<close>

text \<open>
  The body of the inner loop, lines 57 to 62, over the tokens of one example.
  The state is the encoder and the local variable \<open>index\<close>. A raise leaves
  the encoder as it is at that moment (nothing is rolled back), so the
  function returns the state reached together with the error, if any.
  Line 62 reads \<open>self.label_count_dict[token]\<close> before it adds one, which is a
  KeyError when the token has no count.
\<close>

fun setup_tokens ::
  "string list \<Rightarrow> LabelField \<times> int \<Rightarrow> (LabelField \<times> int) \<times> error option" where
  "setup_tokens [] (self, index) = ((self, index), None)"
| "setup_tokens (token # tokens) (self, index) =
     (if token \<notin> set (map fst (vocab self))
      then setup_tokens tokens
             (self\<lparr> vocab := AList.update token (index + 1) (vocab self),
                    label_count_dict := AList.update token 1 (label_count_dict self) \<rparr>,
              index + 1)
      else (case map_of (label_count_dict self) token of
              None \<Rightarrow> ((self, index), Some (KeyError token))
            | Some c \<Rightarrow>
                setup_tokens tokens
                  (self\<lparr> label_count_dict :=
                           AList.update token (c + 1) (label_count_dict self) \<rparr>,
                   index)))"

text \<open>The loop of line 55 over the examples of one collection.\<close>

fun setup_examples ::
  "string list \<Rightarrow> LabelField \<times> int \<Rightarrow> (LabelField \<times> int) \<times> error option" where
  "setup_examples [] (self, index) = ((self, index), None)"
| "setup_examples (example # examples) (self, index) =
     (case setup_tokens (tokenizer self example) (self, index) of
        (s, Some e) \<Rightarrow> (s, Some e)
      | (s, None) \<Rightarrow> setup_examples examples s)"

text \<open>
  The generator of line 50,
  \<^verbatim>\<open>(e for dataset in data for e in dataset if dataset is not None)\<close>,
  consumed by the loop of line 55. Its clauses nest from left to right: for
  each \<open>dataset\<close>, \<open>for e in dataset\<close> runs first and the condition
  \<open>dataset is not None\<close> filters the elements \<open>e\<close> afterwards. So an absent
  collection (\<open>None\<close>) is iterated, which raises TypeError when the loop
  reaches it (the generator is lazy: the collections before it have been
  processed by then), and on a collection that is there the filter keeps
  every element.
\<close>

fun setup_data ::
  "string list option list \<Rightarrow> LabelField \<times> int \<Rightarrow> (LabelField \<times> int) \<times> error option" where
  "setup_data [] s = (s, None)"
| "setup_data (dataset # data) s =
     (case dataset of
        None \<Rightarrow> (s, Some TypeError)
      | Some es \<Rightarrow>
          (case setup_examples (filter (\<lambda>e. dataset \<noteq> None) es) s of
             (s', Some e) \<Rightarrow> (s', Some e)
           | (s', None) \<Rightarrow> setup_data data s'))"

text \<open>
  \<open>setup\<close>, lines 50 to 62: \<open>index\<close> starts at \<open>len(self.vocab) - 1\<close>. The
  result is the encoder after the call and the error raised, if any. (The
  name carries a suffix because \<open>setup\<close> is a command of Isabelle.)
\<close>

definition setup_LabelField :: "LabelField \<Rightarrow> string list option list \<Rightarrow> LabelField \<times> error option" where
  "setup_LabelField self data =
     (case setup_data data (self, int (length (vocab self)) - 1) of
        ((self', index), r) \<Rightarrow> (self', r))"

text \<open>
  A sequence of \<open>setup\<close> calls on one encoder, each with its own collections;
  a call that raises leaves its partial effect and the next call goes on from
  there.
\<close>

fun setups :: "LabelField \<Rightarrow> string list option list list \<Rightarrow> LabelField" where
  "setups self [] = self"
| "setups self (data # calls) = setups (fst (setup_LabelField self data)) calls"

subsection \<open>process\<close>

text \<open>\<open>[d[k] for k in ks]\<close>: the first key that is missing raises KeyError.\<close>

fun getitems :: "(string \<times> 'v) list \<Rightarrow> string list \<Rightarrow> error + 'v list" where
  "getitems d [] = Inr []"
| "getitems d (k # ks) =
     (case map_of d k of
        None \<Rightarrow> Inl (KeyError k)
      | Some v \<Rightarrow> (case getitems d ks of Inl e \<Rightarrow> Inl e | Inr vs \<Rightarrow> Inr (v # vs)))"

text \<open>
  Modelled from the spec: the inherited \<open>TextField.process\<close> (the
  \<open>super().process\<close> of line 79) is not among the sources. The spec: the base
  encoding routine tokenizes and maps "tokens to their vocabulary ids,
  producing an ordered sequence of integer ids"; "any token not present in
  the vocabulary causes a lookup failure (propagated from the underlying
  mapping access)"; lowercasing is disabled; "Side effects: none". The
  encoder is returned beside the result, unchanged.
\<close>

definition TextField_process :: "LabelField \<Rightarrow> string \<Rightarrow> LabelField \<times> (error + int list)" where
  "TextField_process self example =
     (self, getitems (vocab self) (tokenizer self example))"

text \<open>
  \<open>process\<close>, lines 79 to 85. \<open>range(len(self.vocab))\<close> is \<open>[0..len - 1]\<close>,
  \<open>i in n\<close> is membership in the id sequence and \<open>int\<close> of a truth value is 1
  or 0. The function makes no assignment to a field of \<open>self\<close>; the encoder
  is threaded through the call of the base routine and returned.
\<close>

definition process :: "LabelField \<Rightarrow> string \<Rightarrow> LabelField \<times> (error + int list)" where
  "process self example =
     (case TextField_process self example of
        (self', Inl e) \<Rightarrow> (self', Inl e)
      | (self', Inr n) \<Rightarrow>
          if one_hot self'
          then (self', Inr (map (\<lambda>i. if i \<in> set n then 1 else 0)
                              [0 .. int (length (vocab self')) - 1]))
          else (self', Inr n))"

subsection \<open>The statistics\<close>

text \<open>
  \<open>label_count\<close>, lines 97 and 98: the counts of the labels, in the order of
  the vocabulary.
\<close>

definition label_count :: "LabelField \<Rightarrow> error + int list" where
  "label_count self = getitems (label_count_dict self) (map fst (vocab self))"

text \<open>
  The quotient of a tensor by a number and of a number by a tensor, element
  by element, over the rationals. A quotient is computed for each element, so
  no quotient is computed for the empty tensor.
\<close>

fun tensor_div :: "rat list \<Rightarrow> rat \<Rightarrow> error + rat list" where
  "tensor_div [] d = Inr []"
| "tensor_div (x # xs) d =
     (if d = 0 then Inl ZeroDivisionError
      else (case tensor_div xs d of Inl e \<Rightarrow> Inl e | Inr ys \<Rightarrow> Inr (x / d # ys)))"

fun tensor_rdiv :: "rat \<Rightarrow> rat list \<Rightarrow> error + rat list" where
  "tensor_rdiv a [] = Inr []"
| "tensor_rdiv a (x # xs) =
     (if x = 0 then Inl ZeroDivisionError
      else (case tensor_rdiv a xs of Inl e \<Rightarrow> Inl e | Inr ys \<Rightarrow> Inr (a / x # ys)))"

text \<open>
  \<open>label_freq\<close>, lines 111 and 112: \<open>torch.tensor(counts) / sum(counts)\<close>,
  with \<open>/\<close> the true quotient, as the spec has it ("each count divided by
  the sum of all counts").
\<close>

definition label_freq :: "LabelField \<Rightarrow> error + rat list" where
  "label_freq self =
     (case getitems (label_count_dict self) (map fst (vocab self)) of
        Inl e \<Rightarrow> Inl e
      | Inr counts \<Rightarrow> tensor_div (map of_int counts) (of_int (sum_list counts)))"

text \<open>\<open>label_inv_freq\<close>, line 125: \<open>1. / self.label_freq\<close>.\<close>

definition label_inv_freq :: "LabelField \<Rightarrow> error + rat list" where
  "label_inv_freq self =
     (case label_freq self of
        Inl e \<Rightarrow> Inl e
      | Inr freq \<Rightarrow> tensor_rdiv 1 freq)"

subsection \<open>What the properties speak of\<close>

text \<open>
  The distinct elements of a list in the order of their first occurrence.
\<close>

primrec first_seen :: "'a list \<Rightarrow> 'a list" where
  "first_seen [] = []"
| "first_seen (x # xs) = x # removeAll x (first_seen xs)"

text \<open>
  The examples that the generator of line 50 yields for the collections of
  one call: those of the collections before the first absent one, in order
  (all of them when no collection is absent).
\<close>

fun yielded :: "string list option list \<Rightarrow> string list" where
  "yielded [] = []"
| "yielded (None # data) = []"
| "yielded (Some es # data) = es @ yielded data"

text \<open>
  The tokens observed by a sequence of calls: the tokens of the examples
  yielded, call after call, with repetitions.
\<close>

definition observed :: "(string \<Rightarrow> string list) \<Rightarrow> string list option list list \<Rightarrow> string list" where
  "observed tok calls = concat (map tok (concat (map yielded calls)))"

text \<open>
  The encoder has seen exactly the tokens \<open>seen\<close>, in this order: the
  vocabulary numbers the distinct ones from 0 in the order of their first
  occurrence and each has its number of occurrences as count.
\<close>

definition tracks :: "(string \<Rightarrow> string list) \<Rightarrow> string list \<Rightarrow> LabelField \<Rightarrow> bool" where
  "tracks tok seen self \<longleftrightarrow>
     tokenizer self = tok \<and>
     vocab self = zip (first_seen seen) (map int [0..<length (first_seen seen)]) \<and>
     (\<forall>t. map_of (label_count_dict self) t =
            (if t \<in> set seen then Some (int (count_list seen t)) else None))"

text \<open>
  The invariant of the two dictionaries: they have the same keys, and every
  count is at least 1.
\<close>

definition count_inv :: "LabelField \<Rightarrow> bool" where
  "count_inv self \<longleftrightarrow>
     set (map fst (vocab self)) = set (map fst (label_count_dict self)) \<and>
     list_all (\<lambda>(k, c). 1 \<le> c) (label_count_dict self)"

text \<open>
  An encoder to evaluate the properties on: the one that a fresh encoder with
  the separator \<open>|\<close> becomes by setup on the single collection
  \<open>cat|dog\<close>, \<open>cat\<close> (lemma \<open>cat_dog_setup\<close> below).
\<close>

definition cat_dog :: LabelField where
  "cat_dog =
     \<lparr> one_hot = False,
       multilabel_sep = Some ''|'',
       label_count_dict = [(''cat'', 2), (''dog'', 1)],
       tokenizer = LabelTokenizer (Some ''|''),
       vocab = [(''cat'', 0), (''dog'', 1)] \<rparr>"

section \<open>Properties\<close>

subsection \<open>The order of first occurrence\<close>

lemma set_first_seen [simp]: "set (first_seen xs) = set xs"
  by (induction xs) auto

lemma distinct_first_seen [simp]: "distinct (first_seen xs)"
  by (induction xs) (auto simp: distinct_removeAll)

lemma first_seen_snoc:
  "first_seen (xs @ [x]) = (if x \<in> set xs then first_seen xs else first_seen xs @ [x])"
  by (induction xs) auto

lemma length_first_seen: "length (first_seen xs) = card (set xs)"
  using distinct_card [of "first_seen xs"] by simp

lemma update_new_key: "k \<notin> fst ` set d \<Longrightarrow> AList.update k v d = d @ [(k, v)]"
  by (induction d) auto

lemma tracks_keys: "tracks tok seen self \<Longrightarrow> map fst (vocab self) = first_seen seen"
  by (simp add: tracks_def)

lemma tracks_new:
  assumes "tracks tok seen self" and "t \<notin> set seen"
  shows "tracks tok (seen @ [t])
           (self\<lparr> vocab := AList.update t (int (length (vocab self)) - 1 + 1) (vocab self),
                  label_count_dict := AList.update t 1 (label_count_dict self) \<rparr>)"
proof -
  have keys: "t \<notin> fst ` set (vocab self)"
    using assms tracks_keys [OF assms(1)] by (metis set_first_seen set_map)
  have len: "length (vocab self) = length (first_seen seen)"
    using assms(1) by (simp add: tracks_def)
  show ?thesis
    using assms keys
    by (auto simp: tracks_def update_new_key first_seen_snoc AList.update_conv')
qed

lemma tracks_old:
  assumes "tracks tok seen self" and "t \<in> set seen"
  shows "map_of (label_count_dict self) t = Some (int (count_list seen t))"
    and "tracks tok (seen @ [t])
           (self\<lparr> label_count_dict :=
                    AList.update t (int (count_list seen t) + 1) (label_count_dict self) \<rparr>)"
  using assms by (auto simp: tracks_def first_seen_snoc AList.update_conv')

lemma setup_tokens_tracks:
  "tracks tok seen self \<Longrightarrow> index = int (length (vocab self)) - 1 \<Longrightarrow>
   \<exists>self'. setup_tokens ts (self, index) = ((self', int (length (vocab self')) - 1), None) \<and>
           tracks tok (seen @ ts) self'"
proof (induction ts arbitrary: seen self index)
  case Nil
  then show ?case by simp
next
  case (Cons t ts)
  have keys: "set (map fst (vocab self)) = set seen"
    using tracks_keys [OF Cons.prems(1)] by simp
  show ?case
  proof (cases "t \<in> set seen")
    case False
    let ?s = "self\<lparr> vocab := AList.update t (index + 1) (vocab self),
                    label_count_dict := AList.update t 1 (label_count_dict self) \<rparr>"
    have tr: "tracks tok (seen @ [t]) ?s"
      using tracks_new [OF Cons.prems(1) False] Cons.prems(2) by simp
    have "t \<notin> fst ` set (vocab self)" using keys False by simp
    then have ix: "index + 1 = int (length (vocab ?s)) - 1"
      using Cons.prems(2) by (simp add: update_new_key)
    from Cons.IH [OF tr ix] show ?thesis
      using False keys by simp
  next
    case True
    let ?s = "self\<lparr> label_count_dict :=
                 AList.update t (int (count_list seen t) + 1) (label_count_dict self) \<rparr>"
    have tr: "tracks tok (seen @ [t]) ?s"
      and lk: "map_of (label_count_dict self) t = Some (int (count_list seen t))"
      using tracks_old [OF Cons.prems(1) True] by simp_all
    have ix: "index = int (length (vocab ?s)) - 1"
      using Cons.prems(2) by simp
    from Cons.IH [OF tr ix] show ?thesis
      using True keys lk by simp
  qed
qed


lemma tracks_tokenizer: "tracks tok seen self \<Longrightarrow> tokenizer self = tok"
  by (simp add: tracks_def)

lemma setup_examples_tracks:
  "tracks tok seen self \<Longrightarrow> index = int (length (vocab self)) - 1 \<Longrightarrow>
   \<exists>self'. setup_examples es (self, index) = ((self', int (length (vocab self')) - 1), None) \<and>
           tracks tok (seen @ concat (map tok es)) self'"
proof (induction es arbitrary: seen self index)
  case Nil
  then show ?case by simp
next
  case (Cons e es)
  from setup_tokens_tracks [OF Cons.prems, of "tok e"]
  obtain s1 where s1: "setup_tokens (tok e) (self, index) = ((s1, int (length (vocab s1)) - 1), None)"
    and tr: "tracks tok (seen @ tok e) s1" by blast
  from Cons.IH [OF tr refl]
  obtain s2 where s2: "setup_examples es (s1, int (length (vocab s1)) - 1)
                         = ((s2, int (length (vocab s2)) - 1), None)"
    and tr2: "tracks tok ((seen @ tok e) @ concat (map tok es)) s2" by blast
  show ?case
    using s1 s2 tr2 tracks_tokenizer [OF Cons.prems(1)] by simp
qed

lemma setup_data_tracks:
  "tracks tok seen self \<Longrightarrow> index = int (length (vocab self)) - 1 \<Longrightarrow>
   \<exists>self' r. setup_data data (self, index) = ((self', int (length (vocab self')) - 1), r) \<and>
           (r = None \<or> r = Some TypeError) \<and>
           (r = None \<longleftrightarrow> None \<notin> set data) \<and>
           tracks tok (seen @ concat (map tok (yielded data))) self'"
proof (induction data arbitrary: seen self index)
  case Nil
  then show ?case by simp
next
  case (Cons d data)
  show ?case
  proof (cases d)
    case None
    then show ?thesis using Cons.prems by simp
  next
    case (Some es)
    from setup_examples_tracks [OF Cons.prems, of es]
    obtain s1 where s1: "setup_examples es (self, index) = ((s1, int (length (vocab s1)) - 1), None)"
      and tr: "tracks tok (seen @ concat (map tok es)) s1" by blast
    from Cons.IH [OF tr refl]
    obtain s2 r where s2: "setup_data data (s1, int (length (vocab s1)) - 1)
                           = ((s2, int (length (vocab s2)) - 1), r)"
      and r: "r = None \<or> r = Some TypeError" "r = None \<longleftrightarrow> None \<notin> set data"
      and tr2: "tracks tok ((seen @ concat (map tok es)) @ concat (map tok (yielded data))) s2"
      by blast
    show ?thesis
      using Some s1 s2 r tr2 by auto
  qed
qed

lemma setup_tracks:
  assumes "tracks tok seen self"
  shows "tracks tok (seen @ concat (map tok (yielded data))) (fst (setup_LabelField self data))"
    and "snd (setup_LabelField self data) = (if None \<in> set data then Some TypeError else None)"
proof -
  from setup_data_tracks [OF assms refl, of data]
  obtain s r where s: "setup_data data (self, int (length (vocab self)) - 1)
                         = ((s, int (length (vocab s)) - 1), r)"
    and r: "r = None \<or> r = Some TypeError" "r = None \<longleftrightarrow> None \<notin> set data"
    and tr: "tracks tok (seen @ concat (map tok (yielded data))) s" by blast
  show "tracks tok (seen @ concat (map tok (yielded data))) (fst (setup_LabelField self data))"
    using s tr by (simp add: setup_LabelField_def)
  show "snd (setup_LabelField self data) = (if None \<in> set data then Some TypeError else None)"
    using s r by (auto simp: setup_LabelField_def)
qed

lemma setups_tracks:
  "tracks tok seen self \<Longrightarrow> tracks tok (seen @ observed tok calls) (setups self calls)"
proof (induction calls arbitrary: seen self)
  case Nil
  then show ?case by (simp add: observed_def)
next
  case (Cons data calls)
  from Cons.IH [OF setup_tracks(1) [OF Cons.prems, of data]]
  show ?case by (simp add: observed_def)
qed

lemma tracks_init: "tracks (LabelTokenizer sep) [] (init oh sep)"
  by (simp add: tracks_def init_def)

lemma tracks_fresh:
  "tracks (LabelTokenizer sep) (observed (LabelTokenizer sep) calls) (setups (init oh sep) calls)"
  using setups_tracks [OF tracks_init, of sep calls oh] by simp

lemma setups_append: "setups self (calls @ later) = setups (setups self calls) later"
  by (induction calls arbitrary: self) simp_all

lemma observed_append: "observed tok (calls @ later) = observed tok calls @ observed tok later"
  by (simp add: observed_def)

lemma first_seen_append: "first_seen (xs @ ys) = first_seen xs @ filter (\<lambda>y. y \<notin> set xs) (first_seen ys)"
proof (induction ys rule: rev_induct)
  case Nil
  then show ?case by simp
next
  case (snoc y ys)
  have "first_seen (xs @ ys @ [y]) = first_seen ((xs @ ys) @ [y])" by simp
  also have "\<dots> = (if y \<in> set (xs @ ys) then first_seen (xs @ ys) else first_seen (xs @ ys) @ [y])"
    by (rule first_seen_snoc)
  finally show ?case using snoc by (auto simp: first_seen_snoc)
qed

lemma getitems_map:
  "(\<And>k. k \<in> set ks \<Longrightarrow> map_of d k = Some (f k)) \<Longrightarrow> getitems d ks = Inr (map f ks)"
  by (induction ks) simp_all

lemma tracks_label_count:
  assumes "tracks tok seen self"
  shows "label_count self = Inr (map (\<lambda>t. int (count_list seen t)) (first_seen seen))"
  unfolding label_count_def tracks_keys [OF assms]
  using assms by (intro getitems_map) (simp add: tracks_def)

lemma sum_counts_first_seen:
  "sum_list (map (\<lambda>t. int (count_list seen t)) (first_seen seen)) = int (length seen)"
proof -
  have "sum_list (map (count_list seen) (first_seen seen)) = sum (count_list seen) (set seen)"
    using sum_list_distinct_conv_sum_set [of "first_seen seen" "count_list seen"] by simp
  also have "\<dots> = length seen"
    by (rule sum_count_set) simp_all
  finally have "int (sum_list (map (count_list seen) (first_seen seen))) = int (length seen)"
    by simp
  then show ?thesis
    by (simp add: sum_list_of_nat [symmetric] comp_def)
qed


subsection \<open>Absent collections\<close>

lemma yielded_all: "None \<notin> set data \<Longrightarrow> yielded data = concat (map the data)"
  by (induction data rule: yielded.induct) simp_all

text \<open>
  From a fresh encoder and after any calls, a call raises exactly when one of
  its collections is absent, and then it raises TypeError.
\<close>

lemma setup_raises_iff_absent:
  "snd (setup_LabelField (setups (init oh sep) calls) data)
     = (if None \<in> set data then Some TypeError else None)"
  by (rule setup_tracks(2) [OF tracks_fresh])

lemma cat_dog_setup:
  "fst (setup_LabelField (init False (Some ''|'')) [Some [''cat|dog'', ''cat'']]) = cat_dog"
  by (simp add: setup_LabelField_def init_def LabelTokenizer_def cat_dog_def)

text \<open>
  C1. The spec: a call of setup in which some collection is absent skips that
  collection and raises no error, as if it had not been passed. The code does
  not: on a fresh encoder, the call with the collections [cat], None, [dog]
  records cat, then raises TypeError at the absent collection and never sees
  dog, whereas the call with [cat], [dog] raises nothing and records both.
\<close>

theorem setup_absent_collection_raises:
  "snd (setup_LabelField (init False None) [Some [''cat''], None, Some [''dog'']]) = Some TypeError \<and>
   vocab (fst (setup_LabelField (init False None) [Some [''cat''], None, Some [''dog'']]))
     = [(''cat'', 0)] \<and>
   snd (setup_LabelField (init False None) [Some [''cat''], Some [''dog'']]) = None \<and>
   vocab (fst (setup_LabelField (init False None) [Some [''cat''], Some [''dog'']]))
     = [(''cat'', 0), (''dog'', 1)]"
  by (simp add: setup_LabelField_def init_def LabelTokenizer_def)

subsection \<open>The vocabulary after any sequence of calls\<close>

text \<open>
  C2. After any sequence of setup calls on a fresh encoder, the keys of the
  vocabulary are exactly the distinct tokens observed, in the order in which
  they were first seen, their ids are 0, 1, ..., n - 1 in that order, where n
  is the number of distinct tokens observed, and a token that has an id keeps
  it through any later calls. (For a call that raises at an absent
  collection, the tokens observed are those of the collections before it.)
\<close>

theorem vocab_dense_first_seen:
  "map fst (vocab (setups (init oh sep) calls)) = first_seen (observed (LabelTokenizer sep) calls) \<and>
   distinct (map fst (vocab (setups (init oh sep) calls))) \<and>
   set (map fst (vocab (setups (init oh sep) calls))) = set (observed (LabelTokenizer sep) calls) \<and>
   map snd (vocab (setups (init oh sep) calls))
     = map int [0..<card (set (observed (LabelTokenizer sep) calls))] \<and>
   (map_of (vocab (setups (init oh sep) calls)) t = Some i \<longrightarrow>
    map_of (vocab (setups (init oh sep) (calls @ later))) t = Some i)"
proof -
  let ?tok = "LabelTokenizer sep"
  let ?a = "observed ?tok calls" and ?b = "observed ?tok (calls @ later)"
  have va: "vocab (setups (init oh sep) calls)
              = zip (first_seen ?a) (map int [0..<length (first_seen ?a)])"
    using tracks_fresh [of sep calls oh] by (simp add: tracks_def)
  have vb: "vocab (setups (init oh sep) (calls @ later))
              = zip (first_seen ?b) (map int [0..<length (first_seen ?b)])"
    using tracks_fresh [of sep "calls @ later" oh] by (simp add: tracks_def)
  obtain new where new: "first_seen ?b = first_seen ?a @ new"
    by (simp add: observed_append first_seen_append)
  have "vocab (setups (init oh sep) (calls @ later)) =
          vocab (setups (init oh sep) calls)
          @ zip new (map int [length (first_seen ?a)..<length (first_seen ?b)])"
    unfolding va vb new by (simp add: upt_add_eq_append [of 0, simplified] zip_append)
  then have stable: "map_of (vocab (setups (init oh sep) calls)) t = Some i \<Longrightarrow>
    map_of (vocab (setups (init oh sep) (calls @ later))) t = Some i"
    by (simp add: map_add_Some_iff)
  have keys: "map fst (vocab (setups (init oh sep) calls)) = first_seen ?a"
    by (simp add: va)
  show ?thesis
    using stable by (simp add: keys) (simp add: va length_first_seen)
qed

theorem vocab_dense_first_seen_witness:
  "map_of (vocab (setups (init False None) [[Some [''cat'', ''dog'', ''cat'']]])) ''dog'' = Some 1 \<and>
   map_of (vocab (setups (init False None)
                    ([[Some [''cat'', ''dog'', ''cat'']]] @ [[Some [''cow''], None]]))) ''dog''
     = Some 1"
proof -
  have h: "map_of (vocab (setups (init False None) [[Some [''cat'', ''dog'', ''cat'']]])) ''dog''
             = Some 1"
    by (simp add: setup_LabelField_def init_def LabelTokenizer_def)
  have "map_of (vocab (setups (init False None) [[Some [''cat'', ''dog'', ''cat'']]])) ''dog''
          = Some 1 \<longrightarrow>
        map_of (vocab (setups (init False None)
                    ([[Some [''cat'', ''dog'', ''cat'']]] @ [[Some [''cow''], None]]))) ''dog''
          = Some 1"
    using vocab_dense_first_seen
            [of False None "[[Some [''cat'', ''dog'', ''cat'']]]" "''dog''" 1 "[[Some [''cow''], None]]"]
    by blast
  with h show ?thesis by blast
qed

subsection \<open>The counts after any sequence of calls\<close>

text \<open>
  C3. After any sequence of setup calls on a fresh encoder, label_count
  returns a sequence whose sum is the number of tokens observed, repetitions
  counted, over all the calls.
\<close>

theorem label_count_sum_observed:
  "\<exists>counts. label_count (setups (init oh sep) calls) = Inr counts \<and>
      sum_list counts = int (length (observed (LabelTokenizer sep) calls))"
  using tracks_label_count [OF tracks_fresh [of sep calls oh]] sum_counts_first_seen
  by simp


subsection \<open>The invariant of the two dictionaries\<close>

lemma list_all_update:
  "list_all P d \<Longrightarrow> P (k, v) \<Longrightarrow> list_all P (AList.update k v d)"
  by (induction d) auto

lemma count_inv_new:
  assumes "count_inv self"
  shows "count_inv (self\<lparr> vocab := AList.update t i (vocab self),
                          label_count_dict := AList.update t 1 (label_count_dict self) \<rparr>)"
  using assms by (simp add: count_inv_def AList.dom_update list_all_update)

lemma count_inv_old:
  assumes "count_inv self" and "map_of (label_count_dict self) t = Some c"
  shows "count_inv (self\<lparr> label_count_dict := AList.update t (c + 1) (label_count_dict self) \<rparr>)"
proof -
  have mem: "(t, c) \<in> set (label_count_dict self)"
    using assms(2) by (rule map_of_SomeD)
  then have "1 \<le> c"
    using assms(1) by (auto simp: count_inv_def list_all_iff)
  moreover have "t \<in> fst ` set (label_count_dict self)"
    using mem by force
  ultimately show ?thesis
    using assms(1) by (auto simp: count_inv_def AList.dom_update list_all_update)
qed

lemma setup_tokens_count_inv:
  "count_inv self \<Longrightarrow> count_inv (fst (fst (setup_tokens ts (self, index))))"
proof (induction ts arbitrary: self index)
  case Nil
  then show ?case by simp
next
  case (Cons t ts)
  show ?case
  proof (cases "t \<in> set (map fst (vocab self))")
    case False
    then show ?thesis
      using Cons.IH [OF count_inv_new [OF Cons.prems]] by simp
  next
    case True
    show ?thesis
    proof (cases "map_of (label_count_dict self) t")
      case None
      then show ?thesis using True Cons.prems by simp
    next
      case (Some c)
      then show ?thesis
        using True Cons.IH [OF count_inv_old [OF Cons.prems Some]] by simp
    qed
  qed
qed

lemma setup_examples_count_inv:
  "count_inv self \<Longrightarrow> count_inv (fst (fst (setup_examples es (self, index))))"
proof (induction es arbitrary: self index)
  case Nil
  then show ?case by simp
next
  case (Cons e es)
  obtain s1 i1 r where st: "setup_tokens (tokenizer self e) (self, index) = ((s1, i1), r)"
    by (metis surj_pair)
  have "count_inv s1"
    using setup_tokens_count_inv [OF Cons.prems, of "tokenizer self e" index] st by simp
  from Cons.IH [OF this, of i1] show ?case
    using st \<open>count_inv s1\<close> by (cases r) simp_all
qed

lemma setup_data_count_inv:
  "count_inv self \<Longrightarrow> count_inv (fst (fst (setup_data data (self, index))))"
proof (induction data arbitrary: self index)
  case Nil
  then show ?case by simp
next
  case (Cons d data)
  show ?case
  proof (cases d)
    case None
    then show ?thesis using Cons.prems by simp
  next
    case (Some es)
    obtain s1 i1 r where st: "setup_examples es (self, index) = ((s1, i1), r)"
      by (metis surj_pair)
    have inv1: "count_inv s1"
      using setup_examples_count_inv [OF Cons.prems, of es index] st by simp
    from Cons.IH [OF this, of i1] show ?thesis
      using st inv1 Some by (cases r) simp_all
  qed
qed

lemma setup_count_inv: "count_inv self \<Longrightarrow> count_inv (fst (setup_LabelField self data))"
  using setup_data_count_inv [of self data "int (length (vocab self)) - 1"]
  by (auto simp: setup_LabelField_def split: prod.splits)

lemma count_inv_init: "count_inv (init oh sep)"
  by (simp add: count_inv_def init_def)

text \<open>Every encoder reached from a fresh one by setup calls satisfies the invariant.\<close>

lemma count_inv_setups: "count_inv self \<Longrightarrow> count_inv (setups self calls)"
  by (induction calls arbitrary: self) (simp_all add: setup_count_inv)

lemma count_inv_fresh: "count_inv (setups (init oh sep) calls)"
  by (rule count_inv_setups [OF count_inv_init])

lemma process_state: "fst (process self example) = self"
  by (simp add: process_def TextField_process_def split: sum.splits)

lemma cat_dog_inv: "count_inv cat_dog"
  by (simp add: count_inv_def cat_dog_def)

text \<open>
  C4. The invariant "the vocabulary and the count table have the same keys
  and every count is at least 1" holds of a fresh encoder (both are empty),
  every setup call preserves it, whether the call raises or not, and process
  preserves it.
\<close>

theorem count_inv_maintained:
  "count_inv (init oh sep) \<and>
   (count_inv self \<longrightarrow> count_inv (fst (setup_LabelField self data))) \<and>
   (count_inv self \<longrightarrow> count_inv (fst (process self example)))"
  by (simp add: setup_count_inv process_state count_inv_init)

theorem count_inv_maintained_witness:
  "count_inv (init False (Some ''|'')) \<and>
   count_inv (fst (setup_LabelField (init False (Some ''|'')) [Some [''cat|dog'', ''cat'']])) \<and>
   count_inv (fst (process cat_dog ''dog''))"
proof -
  have h0: "count_inv (init False (Some ''|''))"
    using count_inv_maintained [of False "Some ''|''"] by blast
  have "count_inv (fst (setup_LabelField (init False (Some ''|'')) [Some [''cat|dog'', ''cat'']]))"
    using count_inv_maintained [of False "Some ''|''" "init False (Some ''|'')" "[Some [''cat|dog'', ''cat'']]"] h0
    by blast
  moreover have "count_inv (fst (process cat_dog ''dog''))"
    using count_inv_maintained [of False None cat_dog _ "''dog''"] cat_dog_inv by blast
  ultimately show ?thesis using h0 by blast
qed

subsection \<open>process\<close>

lemma getitems_present:
  "set ks \<subseteq> fst ` set d \<Longrightarrow> \<exists>vs. getitems d ks = Inr vs \<and> length vs = length ks \<and> set vs \<subseteq> snd ` set d"
proof (induction ks)
  case Nil
  then show ?case by simp
next
  case (Cons k ks)
  then obtain vs where vs: "getitems d ks = Inr vs" "length vs = length ks" "set vs \<subseteq> snd ` set d"
    by auto
  from Cons.prems have "k \<in> fst ` set d" by simp
  then obtain v where v: "map_of d k = Some v"
    by (metis domD dom_map_of_conv_image_fst)
  then have "v \<in> snd ` set d"
    by (metis map_of_SomeD snd_conv image_eqI)
  with vs v show ?case by simp
qed

lemma getitems_absent:
  "\<not> set ks \<subseteq> fst ` set d \<Longrightarrow>
   \<exists>k. getitems d ks = Inl (KeyError k) \<and> k \<in> set ks \<and> k \<notin> fst ` set d"
proof (induction ks)
  case Nil
  then show ?case by simp
next
  case (Cons k ks)
  show ?case
  proof (cases "map_of d k")
    case None
    then have "k \<notin> fst ` set d" by (simp add: map_of_eq_None_iff)
    with None show ?thesis by simp
  next
    case (Some v)
    then have "k \<in> fst ` set d"
      by (metis map_of_eq_None_iff option.distinct(1))
    with Cons.prems have "\<not> set ks \<subseteq> fst ` set d" by simp
    from Cons.IH [OF this] Some show ?thesis by auto
  qed
qed

text \<open>
  C5. For an example whose tokens are all in the vocabulary, process without
  one_hot returns an id sequence s, and process with one_hot returns a vector
  of the length of the vocabulary whose position i is 1 when the id i occurs
  in s and 0 otherwise.
\<close>

theorem process_one_hot_marks_ids:
  assumes "set (tokenizer self example) \<subseteq> fst ` set (vocab self)"
  shows "\<exists>s v. snd (process (self\<lparr>one_hot := False\<rparr>) example) = Inr s \<and>
               snd (process (self\<lparr>one_hot := True\<rparr>) example) = Inr v \<and>
               length v = length (vocab self) \<and>
               (\<forall>i < length (vocab self). v ! i = (if int i \<in> set s then 1 else 0))"
proof -
  from getitems_present [OF assms]
  obtain s where s: "getitems (vocab self) (tokenizer self example) = Inr s" by blast
  let ?v = "map (\<lambda>i. if i \<in> set s then 1 else 0) [0 .. int (length (vocab self)) - 1]"
  have "snd (process (self\<lparr>one_hot := False\<rparr>) example) = Inr s"
    using s by (simp add: process_def TextField_process_def)
  moreover have "snd (process (self\<lparr>one_hot := True\<rparr>) example) = Inr ?v"
    using s by (simp add: process_def TextField_process_def)
  moreover have "length ?v = length (vocab self)" by simp
  moreover have "\<forall>i < length (vocab self). ?v ! i = (if int i \<in> set s then 1 else 0)"
    by simp
  ultimately show ?thesis by blast
qed

theorem process_one_hot_marks_ids_witness:
  "set (tokenizer (cat_dog) ''dog|cat|dog'') \<subseteq> fst ` set (vocab cat_dog) \<and>
   snd (process (cat_dog\<lparr>one_hot := False\<rparr>) ''dog|cat|dog'') = Inr [1, 0, 1] \<and>
   snd (process (cat_dog\<lparr>one_hot := True\<rparr>) ''dog|cat|dog'') = Inr [1, 1]"
proof -
  have h: "set (tokenizer (cat_dog) ''dog|cat|dog'') \<subseteq> fst ` set (vocab cat_dog)"
    by (simp add: cat_dog_def LabelTokenizer_def)
  have a: "snd (process (cat_dog\<lparr>one_hot := False\<rparr>) ''dog|cat|dog'') = Inr [1, 0, 1]"
    by (simp add: cat_dog_def LabelTokenizer_def process_def TextField_process_def)
  from process_one_hot_marks_ids [OF h] obtain s v where
    r: "snd (process (cat_dog\<lparr>one_hot := False\<rparr>) ''dog|cat|dog'') = Inr s"
       "snd (process (cat_dog\<lparr>one_hot := True\<rparr>) ''dog|cat|dog'') = Inr v"
       "length v = length (vocab cat_dog)"
       "\<forall>i < length (vocab cat_dog). v ! i = (if int i \<in> set s then 1 else 0)"
    by blast
  from r(1) a have s: "s = [1, 0, 1]" by simp
  have len: "length v = 2" using r(3) by (simp add: cat_dog_def)
  have "v ! 0 = 1" "v ! 1 = 1"
    using r(4) s by (simp_all add: cat_dog_def)
  then have "v = [1, 1]"
    using len by (auto simp: length_Suc_conv numeral_2_eq_2)
  with r(2) a h show ?thesis by simp
qed

text \<open>
  C8. For an example with a token that is not in the vocabulary, process
  fails with the lookup error of such a token: it returns no id sequence,
  hence no default id.
\<close>

theorem process_unseen_token_fails:
  assumes "t \<in> set (tokenizer self example)" and "t \<notin> fst ` set (vocab self)"
  shows "\<exists>t'. snd (process self example) = Inl (KeyError t') \<and>
              t' \<in> set (tokenizer self example) \<and> t' \<notin> fst ` set (vocab self)"
proof -
  from assms have "\<not> set (tokenizer self example) \<subseteq> fst ` set (vocab self)" by blast
  from getitems_absent [OF this] show ?thesis
    by (auto simp: process_def TextField_process_def)
qed

theorem process_unseen_token_fails_witness:
  "''cow'' \<in> set (tokenizer cat_dog ''cat|cow'') \<and> ''cow'' \<notin> fst ` set (vocab cat_dog) \<and>
   snd (process cat_dog ''cat|cow'') = Inl (KeyError ''cow'')"
proof -
  have h1: "''cow'' \<in> set (tokenizer cat_dog ''cat|cow'')"
    by (simp add: cat_dog_def LabelTokenizer_def)
  have h2: "''cow'' \<notin> fst ` set (vocab cat_dog)"
    by (simp add: cat_dog_def)
  from process_unseen_token_fails [OF h1 h2] obtain t' where
    r: "snd (process cat_dog ''cat|cow'') = Inl (KeyError t')"
       "t' \<in> set (tokenizer cat_dog ''cat|cow'')" "t' \<notin> fst ` set (vocab cat_dog)"
    by blast
  from r(2,3) have "t' = ''cow''"
    by (simp add: cat_dog_def LabelTokenizer_def) 
  with r(1) h1 h2 show ?thesis by simp
qed

text \<open>
  C9. process leaves the encoder as it is, whether it succeeds or fails, and
  its result does not depend on the count table.
\<close>

theorem process_leaves_encoder:
  "fst (process self example) = self \<and>
   snd (process (self\<lparr>label_count_dict := d\<rparr>) example) = snd (process self example)"
  by (simp add: process_def TextField_process_def split: sum.splits)


subsection \<open>The statistics\<close>

lemma tensor_div_nonzero: "d \<noteq> 0 \<Longrightarrow> tensor_div xs d = Inr (map (\<lambda>x. x / d) xs)"
  by (induction xs) simp_all

lemma tensor_rdiv_nonzero: "0 \<notin> set xs \<Longrightarrow> tensor_rdiv a xs = Inr (map (\<lambda>x. a / x) xs)"
  by (induction xs) auto

lemma sum_list_ge_length: "(\<And>c. c \<in> set cs \<Longrightarrow> (1::int) \<le> c) \<Longrightarrow> int (length cs) \<le> sum_list cs"
  by (induction cs) (simp, force)

lemma count_inv_counts:
  assumes "count_inv self"
  shows "\<exists>counts. getitems (label_count_dict self) (map fst (vocab self)) = Inr counts \<and>
           length counts = length (vocab self) \<and> (\<forall>c \<in> set counts. 1 \<le> c)"
proof -
  have "set (map fst (vocab self)) \<subseteq> fst ` set (label_count_dict self)"
    using assms by (simp add: count_inv_def)
  from getitems_present [OF this]
  obtain counts where c: "getitems (label_count_dict self) (map fst (vocab self)) = Inr counts"
    "length counts = length (vocab self)" "set counts \<subseteq> snd ` set (label_count_dict self)"
    by auto
  have "\<forall>c \<in> snd ` set (label_count_dict self). 1 \<le> c"
    using assms by (auto simp: count_inv_def list_all_iff)
  with c show ?thesis by blast
qed

lemma count_inv_label_freq:
  assumes "count_inv self" and "vocab self \<noteq> []"
  shows "\<exists>counts. label_count self = Inr counts \<and> length counts = length (vocab self) \<and>
           (\<forall>c \<in> set counts. 1 \<le> c) \<and> 0 < sum_list counts \<and>
           label_freq self = Inr (map (\<lambda>c. of_int c / of_int (sum_list counts)) counts)"
proof -
  from count_inv_counts [OF assms(1)]
  obtain counts where c: "getitems (label_count_dict self) (map fst (vocab self)) = Inr counts"
    "length counts = length (vocab self)" "\<forall>c \<in> set counts. 1 \<le> c" by blast
  have "int (length counts) \<le> sum_list counts"
    using c(3) by (intro sum_list_ge_length) simp
  moreover have "0 < length counts" using c(2) assms(2) by simp
  ultimately have pos: "0 < sum_list counts" by linarith
  then have "(of_int (sum_list counts) :: rat) \<noteq> 0" by simp
  then have "label_freq self = Inr (map (\<lambda>c. of_int c / of_int (sum_list counts)) counts)"
    using c(1) by (simp add: label_freq_def tensor_div_nonzero comp_def)
  with c pos show ?thesis by (auto simp: label_count_def)
qed

text \<open>
  C6. For an encoder that satisfies the invariant and has a non-empty
  vocabulary, label_freq and label_inv_freq return sequences of the length of
  the vocabulary, and at every position i the entry of label_inv_freq is 1
  divided by the entry of label_freq (over the rationals).
\<close>

theorem label_inv_freq_reciprocal:
  assumes "count_inv self" and "vocab self \<noteq> []"
  shows "\<exists>freq inv_freq. label_freq self = Inr freq \<and> label_inv_freq self = Inr inv_freq \<and>
           length freq = length (vocab self) \<and> length inv_freq = length (vocab self) \<and>
           (\<forall>i < length (vocab self). inv_freq ! i = 1 / freq ! i)"
proof -
  from count_inv_label_freq [OF assms]
  obtain counts where c: "length counts = length (vocab self)" "\<forall>c \<in> set counts. 1 \<le> c"
    "0 < sum_list counts"
    and f: "label_freq self = Inr (map (\<lambda>c. of_int c / of_int (sum_list counts)) counts)"
    by blast
  let ?freq = "map (\<lambda>c. (of_int c :: rat) / of_int (sum_list counts)) counts"
  have "0 \<notin> set ?freq"
    using c(2,3) by auto
  then have "label_inv_freq self = Inr (map (\<lambda>x. 1 / x) ?freq)"
    using f by (simp add: label_inv_freq_def tensor_rdiv_nonzero del: map_map)
  moreover have "\<forall>i < length (vocab self). map (\<lambda>x. 1 / x) ?freq ! i = 1 / ?freq ! i"
    using c(1) by (simp del: map_map)
  ultimately show ?thesis
    using f c(1) by (auto simp del: map_map)
qed

theorem label_inv_freq_reciprocal_witness:
  "count_inv cat_dog \<and> vocab cat_dog \<noteq> [] \<and> label_freq cat_dog = Inr [2 / 3, 1 / 3] \<and>
   label_inv_freq cat_dog = Inr [3 / 2, 3] \<and> (3 / 2 :: rat) = 1 / (2 / 3)"
proof -
  have h1: "count_inv cat_dog" by (rule cat_dog_inv)
  have h2: "vocab cat_dog \<noteq> []" by (simp add: cat_dog_def)
  have f: "label_freq cat_dog = Inr [2 / 3, 1 / 3]"
    by (simp add: label_freq_def cat_dog_def)
  from label_inv_freq_reciprocal [OF h1 h2] obtain freq inv_freq where
    r: "label_freq cat_dog = Inr freq" "label_inv_freq cat_dog = Inr inv_freq"
       "length inv_freq = length (vocab cat_dog)"
       "\<forall>i < length (vocab cat_dog). inv_freq ! i = 1 / freq ! i"
    by blast
  from r(1) f have fr: "freq = [2 / 3, 1 / 3]" by simp
  have len: "length inv_freq = 2" using r(3) by (simp add: cat_dog_def)
  have "inv_freq ! 0 = 3 / 2" "inv_freq ! 1 = 3"
    using r(4) fr by (simp_all add: cat_dog_def)
  then have "inv_freq = [3 / 2, 3]"
    using len by (auto simp: nth_equalityI length_Suc_conv numeral_2_eq_2)
  with r(2) f h1 h2 show ?thesis by simp
qed

text \<open>
  C7. For an encoder that satisfies the invariant and has a non-empty
  vocabulary, label_freq returns a sequence that sums to 1 (over the
  rationals).
\<close>

theorem label_freq_sums_to_one:
  assumes "count_inv self" and "vocab self \<noteq> []"
  shows "\<exists>freq. label_freq self = Inr freq \<and> sum_list freq = 1"
proof -
  from count_inv_label_freq [OF assms]
  obtain counts where pos: "0 < sum_list counts"
    and f: "label_freq self = Inr (map (\<lambda>c. of_int c / of_int (sum_list counts)) counts)"
    by blast
  have "sum_list (map (\<lambda>c. (of_int c :: rat) / of_int (sum_list counts)) counts)
          = sum_list (map of_int counts) / of_int (sum_list counts)"
    by (simp add: divide_inverse sum_list_mult_const)
  also have "\<dots> = 1"
    using pos by (simp add: sum_list_of_int)
  finally show ?thesis using f by simp
qed

theorem label_freq_sums_to_one_witness:
  "count_inv cat_dog \<and> vocab cat_dog \<noteq> [] \<and> label_freq cat_dog = Inr [2 / 3, 1 / 3] \<and> sum_list [2 / 3, 1 / 3 :: rat] = 1"
proof -
  have h1: "count_inv cat_dog" by (rule cat_dog_inv)
  have h2: "vocab cat_dog \<noteq> []" by (simp add: cat_dog_def)
  have f: "label_freq cat_dog = Inr [2 / 3, 1 / 3]"
    by (simp add: label_freq_def cat_dog_def)
  from label_freq_sums_to_one [OF h1 h2] f h1 h2 show ?thesis by auto
qed

text \<open>
  C10. On an encoder whose vocabulary is empty, as that of a fresh encoder
  is, label_count, label_freq and label_inv_freq each return the empty
  sequence: no quotient is computed, so the quotient by the zero total is not
  reached.
\<close>

theorem statistics_of_empty_vocab:
  assumes "vocab self = []"
  shows "label_count self = Inr [] \<and> label_freq self = Inr [] \<and> label_inv_freq self = Inr []"
  using assms by (simp add: label_count_def label_freq_def label_inv_freq_def)

theorem statistics_of_empty_vocab_witness:
  "vocab (init False None) = [] \<and> label_count (init False None) = Inr [] \<and>
   label_freq (init False None) = Inr [] \<and> label_inv_freq (init False None) = Inr []"
proof -
  have h: "vocab (init False None) = []" by (simp add: init_def)
  from statistics_of_empty_vocab [OF h] h show ?thesis by blast
qed

end
